theory Spec2Isabelle
  imports Main
begin

section \<open>The evaluator callback handler of \<^verbatim>\<open>langchain/callbacks/tracers/evaluation.py\<close>\<close>

text \<open>
  The handler (\<^verbatim>\<open>EvaluatorCallbackHandler\<close>) owns a thread pool and a set of futures.
  Python objects have identity, and two claims depend on it (the copy of a run is a new
  object, a future is a new object), so run objects live in a heap addressed by position
  and the futures created by the executor are numbered by their position in the
  executor's list of work items. Everything the code does beyond returning is a field
  of the state: the heap, the records handed to the logger, the tracing context and
  (as a ghost field) the calls made to \<^verbatim>\<open>client.evaluate_run\<close>.
\<close>

subsection \<open>Data\<close>

type_synonym uuid = string
type_synonym addr = nat
type_synonym fid = nat

text \<open>
  A \<^verbatim>\<open>Run\<close> (declared in \<^verbatim>\<open>langchain.callbacks.tracers.schemas\<close>): the three
  attributes the handler touches, and the remaining ones kept together.
\<close>

record Run =
  run_id :: uuid
  outputs :: "(string \<times> string) list option"
  reference_example_id :: "uuid option"
  other_fields :: "(string \<times> string) list"

datatype RunEvaluator = RunEvaluator (class_name: string)

datatype LangChainPlusClient = LangChainPlusClient nat

text \<open>
  What a call can raise. \<open>Exception m\<close> is an instance of (a subclass of) Python's
  \<^verbatim>\<open>Exception\<close> whose \<^verbatim>\<open>str\<close> is \<open>m\<close>; \<open>BaseException m\<close> is an instance of a class
  outside that hierarchy (\<^verbatim>\<open>KeyboardInterrupt\<close>, \<^verbatim>\<open>SystemExit\<close>, \<^verbatim>\<open>GeneratorExit\<close>,
  \<^verbatim>\<open>asyncio.CancelledError\<close>): \<^verbatim>\<open>except Exception\<close> catches the first kind only.
\<close>

datatype exn = Exception (exn_str: string) | BaseException (exn_str: string)

fun is_Exception :: "exn \<Rightarrow> bool" where
  "is_Exception (Exception m) = True"
| "is_Exception (BaseException m) = False"

text \<open>The one exception \<^verbatim>\<open>wait_for_futures\<close> raises itself, from \<^verbatim>\<open>set.remove\<close>.\<close>

datatype key_error = KeyError fid

datatype level = DEBUG | ERROR

datatype log_record = LogRecord (levelname: level) (msg: string) (exc_info: "exn option")

text \<open>
  A future of \<^verbatim>\<open>concurrent.futures\<close>: pending, or finished with the value the callable
  returned (\<open>Inr ()\<close>, the callable returns \<^verbatim>\<open>None\<close>) or the exception it raised.
\<close>

datatype future_state = PENDING | FINISHED "exn + unit"

record future =
  fn_run :: addr
  fn_evaluator :: RunEvaluator
  fut_state :: future_state

type_synonym tracing_context = "(string option \<times> string list) option"

record state =
  example_id :: "uuid option"
  client :: LangChainPlusClient
  evaluators :: "RunEvaluator list"
  max_workers :: int
  work_items :: "future list"
  futures :: "fid set"
  skip_unfinished :: bool
  project_name :: "string option"
  heap :: "Run list"
  logger :: "log_record list"
  tracing :: tracing_context
  calls :: "(addr \<times> RunEvaluator \<times> tracing_context) list"

text \<open>
  \<^verbatim>\<open>client.evaluate_run(run, evaluator)\<close> is an external capability: it is a parameter
  of every function that can reach it. It reads the state (so its outcome may depend on
  the run, the evaluator, the tracing context and the history of calls), may mutate run
  objects, and returns normally (\<open>Inr ()\<close>) or raises (\<open>Inl e\<close>).
\<close>

type_synonym evaluate_run = "addr \<Rightarrow> RunEvaluator \<Rightarrow> state \<Rightarrow> (exn + unit) \<times> Run list"

subsection \<open>Construction\<close>

text \<open>
  \<^verbatim>\<open>max(max_workers or len(evaluators), 1)\<close>: Python's \<^verbatim>\<open>or\<close> takes its right operand
  when the left one is falsy, that is \<^verbatim>\<open>None\<close> or \<^verbatim>\<open>0\<close>.
\<close>

definition py_or :: "int option \<Rightarrow> int \<Rightarrow> int" where
  "py_or a b = (case a of None \<Rightarrow> b | Some m \<Rightarrow> if m = 0 then b else m)"

definition pool_bound :: "int option \<Rightarrow> RunEvaluator list \<Rightarrow> int" where
  "pool_bound mw evs = max (py_or mw (int (length evs))) 1"

datatype uuid_arg = Of_UUID uuid | Of_str string

text \<open>
  \<^verbatim>\<open>__init__\<close>. \<open>UUID\<close> is the standard library's parser of a string (it raises
  a \<^verbatim>\<open>ValueError\<close>, an \<open>Exception\<close>, on a malformed one) and \<open>new_client\<close> the object that
  \<^verbatim>\<open>LangChainPlusClient()\<close> creates; \<open>h\<close> is the heap of run objects that exist when the
  handler is built. A client object is always truthy, so \<^verbatim>\<open>client or ...\<close> keeps it.
\<close>

definition init ::
  "(string \<Rightarrow> exn + uuid) \<Rightarrow> LangChainPlusClient \<Rightarrow> Run list \<Rightarrow>
   RunEvaluator list \<Rightarrow> int option \<Rightarrow> LangChainPlusClient option \<Rightarrow> uuid_arg option \<Rightarrow>
   bool \<Rightarrow> string option \<Rightarrow> exn + state" where
  "init UUID new_client h evs mw cl ex skip pn =
     (case (case ex of
              None \<Rightarrow> Inr None
            | Some (Of_UUID u) \<Rightarrow> Inr (Some u)
            | Some (Of_str s) \<Rightarrow> (case UUID s of Inl e \<Rightarrow> Inl e | Inr u \<Rightarrow> Inr (Some u))) of
        Inl e \<Rightarrow> Inl e
      | Inr ex_id \<Rightarrow>
          Inr \<lparr> example_id = ex_id,
                client = (case cl of None \<Rightarrow> new_client | Some c \<Rightarrow> c),
                evaluators = evs,
                max_workers = pool_bound mw evs,
                work_items = [],
                futures = {},
                skip_unfinished = skip,
                project_name = pn,
                heap = h,
                logger = [],
                tracing = None,
                calls = [] \<rparr>)"

subsection \<open>Evaluating one run with one evaluator\<close>

definition client_evaluate_run ::
  "evaluate_run \<Rightarrow> addr \<Rightarrow> RunEvaluator \<Rightarrow> state \<Rightarrow> (exn + unit) \<times> state" where
  "client_evaluate_run ev run evaluator st =
     (let (r, h) = ev run evaluator st
      in (r, st\<lparr>heap := h, calls := calls st @ [(run, evaluator, tracing st)]\<rparr>))"

text \<open>
  Modelled from the spec: \<^verbatim>\<open>tracing_v2_enabled\<close> of \<^verbatim>\<open>langchain.callbacks.manager\<close> is not
  under src/. The spec (4.4) has it establish a scoped reporting destination carrying
  the project name and the tags for the duration of the body, and restore the prior
  destination on exit, also on exceptional exit.
\<close>

definition tracing_v2_enabled ::
  "string option \<Rightarrow> string list \<Rightarrow> (state \<Rightarrow> (exn + unit) \<times> state) \<Rightarrow>
   state \<Rightarrow> (exn + unit) \<times> state" where
  "tracing_v2_enabled pn tags body st =
     (let (r, st') = body (st\<lparr>tracing := Some (pn, tags)\<rparr>)
      in (r, st'\<lparr>tracing := tracing st\<rparr>))"

text \<open>The body of the \<^verbatim>\<open>try\<close> of \<^verbatim>\<open>_evaluate_in_project\<close>.\<close>

definition evaluate_body ::
  "evaluate_run \<Rightarrow> addr \<Rightarrow> RunEvaluator \<Rightarrow> state \<Rightarrow> (exn + unit) \<times> state" where
  "evaluate_body ev run evaluator st =
     (case (if project_name st = None then client_evaluate_run ev run evaluator st
            else (Inr (), st)) of
        (Inl e, st1) \<Rightarrow> (Inl e, st1)
      | (Inr u, st1) \<Rightarrow>
          tracing_v2_enabled (project_name st1) [''eval'']
            (client_evaluate_run ev run evaluator) st1)"

definition error_message :: "Run \<Rightarrow> RunEvaluator \<Rightarrow> exn \<Rightarrow> string" where
  "error_message r evaluator e =
     ''Error evaluating run '' @ run_id r @ '' with '' @ class_name evaluator @ '': '' @
     exn_str e"

text \<open>
  \<^verbatim>\<open>_evaluate_in_project\<close>: \<^verbatim>\<open>except Exception as e\<close> logs and re-raises \<open>e\<close>; any
  other exception leaves the function untouched. The run is a live reference
  (\<open>run < length (heap st)\<close>).
\<close>

definition evaluate_in_project ::
  "evaluate_run \<Rightarrow> addr \<Rightarrow> RunEvaluator \<Rightarrow> state \<Rightarrow> (exn + unit) \<times> state" where
  "evaluate_in_project ev run evaluator st =
     (case evaluate_body ev run evaluator st of
        (Inr u, st1) \<Rightarrow> (Inr u, st1)
      | (Inl e, st1) \<Rightarrow>
          if is_Exception e then
            (Inl e, st1\<lparr>logger := logger st1 @
               [LogRecord ERROR (error_message (heap st1 ! run) evaluator e) (Some e)]\<rparr>)
          else (Inl e, st1))"

subsection \<open>Submission\<close>

text \<open>
  \<^verbatim>\<open>executor.submit(fn, run_, evaluator)\<close> creates a new future, queues the work item and
  returns the future at once; the call itself runs later, on a worker thread.
\<close>

definition submit :: "addr \<Rightarrow> RunEvaluator \<Rightarrow> state \<Rightarrow> fid \<times> state" where
  "submit run evaluator st =
     (length (work_items st),
      st\<lparr>work_items := work_items st @
            [\<lparr>fn_run = run, fn_evaluator = evaluator, fut_state = PENDING\<rparr>]\<rparr>)"

text \<open>The \<^verbatim>\<open>for evaluator in self.evaluators\<close> loop of \<^verbatim>\<open>_persist_run\<close>.\<close>

fun submit_all :: "addr \<Rightarrow> RunEvaluator list \<Rightarrow> state \<Rightarrow> state" where
  "submit_all run [] st = st"
| "submit_all run (evaluator # es) st =
     (let (f, st') = submit run evaluator st
      in submit_all run es (st'\<lparr>futures := insert f (futures st')\<rparr>))"

text \<open>\<^verbatim>\<open>not run.outputs\<close>: an absent and an empty dictionary are both falsy.\<close>

definition no_outputs :: "Run \<Rightarrow> bool" where
  "no_outputs r = (case outputs r of None \<Rightarrow> True | Some d \<Rightarrow> d = [])"

text \<open>
  Modelled from the spec: \<^verbatim>\<open>Run.copy\<close> is declared with \<^verbatim>\<open>Run\<close>, outside src/. The
  spec (3, 4.2) has it produce a shallow copy of the run: a new object with the
  attributes of the old one, which the caller may mutate without affecting the original.
\<close>

definition copy :: "addr \<Rightarrow> state \<Rightarrow> addr \<times> state" where
  "copy run st = (length (heap st), st\<lparr>heap := heap st @ [heap st ! run]\<rparr>)"

definition set_reference_example_id :: "addr \<Rightarrow> uuid option \<Rightarrow> state \<Rightarrow> state" where
  "set_reference_example_id a v st =
     st\<lparr>heap := (heap st)[a := (heap st ! a)\<lparr>reference_example_id := v\<rparr>]\<rparr>"

text \<open>\<^verbatim>\<open>_persist_run\<close>; the run is a live reference (\<open>run < length (heap st)\<close>).\<close>

definition persist_run :: "addr \<Rightarrow> state \<Rightarrow> state" where
  "persist_run run st =
     (if skip_unfinished st \<and> no_outputs (heap st ! run) then
        st\<lparr>logger := logger st @
             [LogRecord DEBUG (''Skipping unfinished run '' @ run_id (heap st ! run)) None]\<rparr>
      else
        let (run', st1) = copy run st;
            st2 = set_reference_example_id run' (example_id st1) st1
        in submit_all run' (evaluators st2) st2)"

subsection \<open>Workers, other threads and the join\<close>

text \<open>
  A worker thread of the pool takes a pending work item and runs it
  (\<^verbatim>\<open>_WorkItem.run\<close> of \<^verbatim>\<open>concurrent.futures.thread\<close>): the callable's value becomes the
  future's result, and whatever it raises (\<^verbatim>\<open>except BaseException\<close>) becomes the
  future's exception. Either way the future is finished.
\<close>

definition run_work_item :: "evaluate_run \<Rightarrow> fid \<Rightarrow> state \<Rightarrow> state" where
  "run_work_item ev f st =
     (if f < length (work_items st) \<and> fut_state (work_items st ! f) = PENDING then
        let w = work_items st ! f;
            (r, st') = evaluate_in_project ev (fn_run w) (fn_evaluator w) st
        in st'\<lparr>work_items := (work_items st')[f := w\<lparr>fut_state := FINISHED r\<rparr>]\<rparr>
      else st)"

text \<open>
  What the other threads do while the caller of \<^verbatim>\<open>wait_for_futures\<close> is blocked: a
  worker runs a work item, the tracing framework persists another run, or another
  caller of \<^verbatim>\<open>wait_for_futures\<close> removes a future of its own snapshot from the set.
\<close>

datatype event = Worker fid | Persist addr | Other_remove fid

fun env_step :: "evaluate_run \<Rightarrow> event \<Rightarrow> state \<Rightarrow> state" where
  "env_step ev (Worker f) st = run_work_item ev f st"
| "env_step ev (Persist r) st = persist_run r st"
| "env_step ev (Other_remove f) st = st\<lparr>futures := futures st - {f}\<rparr>"

definition future_done :: "state \<Rightarrow> fid \<Rightarrow> bool" where
  "future_done st f = (f < length (work_items st) \<and> fut_state (work_items st ! f) \<noteq> PENDING)"

definition all_done :: "fid list \<Rightarrow> state \<Rightarrow> bool" where
  "all_done fs st = list_all (future_done st) fs"

text \<open>
  \<^verbatim>\<open>wait(futures)\<close> blocks until every future of the list is finished. The events are
  what the other threads do from the call on; the call returns at the first moment all
  the futures of the list are finished, with the events not yet consumed, and never
  returns (\<open>None\<close>) when the events end before that.
\<close>

fun wait :: "evaluate_run \<Rightarrow> fid list \<Rightarrow> event list \<Rightarrow> state \<Rightarrow> (state \<times> event list) option" where
  "wait ev fs [] st = (if all_done fs st then Some (st, []) else None)"
| "wait ev fs (e # es) st =
     (if all_done fs st then Some (st, e # es) else wait ev fs es (env_step ev e st))"

text \<open>\<^verbatim>\<open>set.remove\<close> raises \<^verbatim>\<open>KeyError\<close> when the element is not in the set.\<close>

definition set_remove :: "fid \<Rightarrow> state \<Rightarrow> key_error + state" where
  "set_remove f st =
     (if f \<in> futures st then Inr (st\<lparr>futures := futures st - {f}\<rparr>) else Inl (KeyError f))"

text \<open>The \<^verbatim>\<open>for future in futures\<close> loop of \<^verbatim>\<open>wait_for_futures\<close>.\<close>

fun remove_loop :: "fid list \<Rightarrow> state \<Rightarrow> (key_error + unit) \<times> state" where
  "remove_loop [] st = (Inr (), st)"
| "remove_loop (f # fs) st =
     (case set_remove f st of
        Inl e \<Rightarrow> (Inl e, st)
      | Inr st' \<Rightarrow> remove_loop fs st')"

text \<open>
  \<^verbatim>\<open>list(self.futures)\<close>: the elements of the set, each once. Python fixes no order;
  the model takes the increasing one, and nothing below depends on it.
\<close>

definition snapshot :: "state \<Rightarrow> fid list" where
  "snapshot st = sorted_list_of_set (futures st)"

definition wait_for_futures ::
  "evaluate_run \<Rightarrow> event list \<Rightarrow> state \<Rightarrow>
   ((key_error + unit) \<times> state \<times> event list) option" where
  "wait_for_futures ev evs st =
     (let fs = snapshot st
      in case wait ev fs evs st of
           None \<Rightarrow> None
         | Some (st1, rest) \<Rightarrow>
             (case remove_loop fs st1 of (r, st2) \<Rightarrow> Some (r, st2, rest)))"

text \<open>
  The invariant of the registry: it is finite and holds only futures the executor
  created.
\<close>

definition wf_state :: "state \<Rightarrow> bool" where
  "wf_state st = (finite (futures st) \<and> (\<forall>f \<in> futures st. f < length (work_items st)))"

text \<open>The events of the other threads, run one after the other.\<close>

fun run_events :: "evaluate_run \<Rightarrow> event list \<Rightarrow> state \<Rightarrow> state" where
  "run_events ev [] st = st"
| "run_events ev (e # es) st = run_events ev es (env_step ev e st)"

fun is_Other_remove :: "event \<Rightarrow> bool" where
  "is_Other_remove (Other_remove f) = True"
| "is_Other_remove e = False"

text \<open>
  The state in which the direct call of \<^verbatim>\<open>evaluate_run\<close> (the one under
  \<^verbatim>\<open>if self.project_name is None\<close>) leaves the handler.
\<close>

definition after_first :: "evaluate_run \<Rightarrow> addr \<Rightarrow> RunEvaluator \<Rightarrow> state \<Rightarrow> state" where
  "after_first ev run evaluator st =
     st\<lparr>heap := snd (ev run evaluator st), calls := calls st @ [(run, evaluator, tracing st)]\<rparr>"

text \<open>The submission gate of \<^verbatim>\<open>_persist_run\<close>: the run is not skipped.\<close>

definition eligible :: "addr \<Rightarrow> state \<Rightarrow> bool" where
  "eligible run st = (\<not> (skip_unfinished st \<and> no_outputs (heap st ! run)))"

text \<open>The work items that one submission queues for the run object at \<open>a\<close>.\<close>

definition new_items :: "addr \<Rightarrow> RunEvaluator list \<Rightarrow> future list" where
  "new_items a es = map (\<lambda>e. \<lparr>fn_run = a, fn_evaluator = e, fut_state = PENDING\<rparr>) es"

subsection \<open>Concrete inputs\<close>

text \<open>
  A finished run, an unfinished one, evaluations that return normally or raise, and a
  handler with two evaluators as \<^verbatim>\<open>__init__\<close> builds it.
\<close>

definition example_run :: Run where
  "example_run = \<lparr>run_id = ''run-1'', outputs = Some [(''output'', ''42'')],
                   reference_example_id = None, other_fields = []\<rparr>"

definition unfinished_run :: Run where
  "unfinished_run = \<lparr>run_id = ''run-2'', outputs = None,
                      reference_example_id = None, other_fields = []\<rparr>"

definition evaluate_ok :: evaluate_run where
  "evaluate_ok run evaluator st = (Inr (), heap st)"

definition evaluate_boom :: evaluate_run where
  "evaluate_boom run evaluator st = (Inl (Exception ''boom''), heap st)"

definition evaluate_exit :: evaluate_run where
  "evaluate_exit run evaluator st = (Inl (BaseException ''exit''), heap st)"

text \<open>An evaluation that mutates the run it is given: it appends its mark.\<close>

definition evaluate_mark :: evaluate_run where
  "evaluate_mark run evaluator st =
     (Inr (), (heap st)[run := (heap st ! run)
        \<lparr>other_fields := other_fields (heap st ! run) @ [(''seen_by'', class_name evaluator)]\<rparr>])"

definition example_handler :: state where
  "example_handler =
     \<lparr> example_id = Some ''ex-1'', client = LangChainPlusClient 0,
       evaluators = [RunEvaluator ''A'', RunEvaluator ''B''], max_workers = 2,
       work_items = [], futures = {}, skip_unfinished = True, project_name = None,
       heap = [example_run, unfinished_run], logger = [], tracing = None, calls = [] \<rparr>"

section \<open>Facts about submission\<close>

lemma submit_all_eq:
  "submit_all a es st =
     st\<lparr>work_items := work_items st @ new_items a es,
        futures := futures st \<union> {length (work_items st) ..< length (work_items st) + length es}\<rparr>"
proof (induction es arbitrary: st)
  case Nil
  then show ?case by (simp add: new_items_def)
next
  case (Cons e es)
  have "insert (length (work_items st)) (futures st) \<union>
          {Suc (length (work_items st)) ..< Suc (length (work_items st) + length es)} =
        futures st \<union> {length (work_items st) ..< Suc (length (work_items st) + length es)}"
    by auto
  with Cons show ?case by (simp add: submit_def new_items_def)
qed

lemma persist_run_eligible:
  assumes "eligible run st"
  shows "persist_run run st =
     st\<lparr>heap := heap st @ [(heap st ! run)\<lparr>reference_example_id := example_id st\<rparr>],
        work_items := work_items st @ new_items (length (heap st)) (evaluators st),
        futures := futures st \<union>
          {length (work_items st) ..< length (work_items st) + length (evaluators st)}\<rparr>"
proof -
  from assms have ne: "\<not> (skip_unfinished st \<and> no_outputs (heap st ! run))"
    by (simp add: eligible_def)
  show ?thesis
    unfolding persist_run_def if_not_P [OF ne]
    by (simp add: copy_def set_reference_example_id_def submit_all_eq)
qed

lemma persist_run_skip:
  assumes "\<not> eligible run st"
  shows "persist_run run st =
     st\<lparr>logger := logger st @
        [LogRecord DEBUG (''Skipping unfinished run '' @ run_id (heap st ! run)) None]\<rparr>"
proof -
  from assms have sk: "skip_unfinished st \<and> no_outputs (heap st ! run)"
    by (simp add: eligible_def)
  show ?thesis
    unfolding persist_run_def if_P [OF sk] by simp
qed

section \<open>Construction\<close>

text \<open>
  Claim C9. In every handler that \<^verbatim>\<open>__init__\<close> builds the pool's bound is
  \<^verbatim>\<open>max(max_workers or len(evaluators), 1)\<close>: the given \<^verbatim>\<open>max_workers\<close> when that is a
  positive integer, and the number of evaluators, at least 1, when none is given (or 0,
  which \<^verbatim>\<open>or\<close> treats as none). A negative \<^verbatim>\<open>max_workers\<close>, which the formula maps
  to 1, is the only other case; the bound is never below 1.
\<close>

theorem pool_bound_of_init:
  assumes "init UUID new_client h evs mw cl ex skip pn = Inr st"
  shows "max_workers st =
           max (case mw of None \<Rightarrow> int (length evs)
                | Some m \<Rightarrow> if m = 0 then int (length evs) else m) 1 \<and>
         (\<forall>m. mw = Some m \<and> 0 < m \<longrightarrow> max_workers st = m) \<and>
         (mw = None \<or> mw = Some 0 \<longrightarrow> max_workers st = max (int (length evs)) 1) \<and>
         (\<forall>m. mw = Some m \<and> m < 0 \<longrightarrow> max_workers st = 1) \<and>
         1 \<le> max_workers st"
proof -
  from assms have "max_workers st = pool_bound mw evs"
    by (auto simp: init_def split: option.splits uuid_arg.splits sum.splits)
  then show ?thesis
    by (auto simp: pool_bound_def py_or_def split: option.splits)
qed

theorem pool_bound_of_init_witness:
  "init (\<lambda>s. Inr s) (LangChainPlusClient 0) [example_run, unfinished_run]
        [RunEvaluator ''A'', RunEvaluator ''B''] None None (Some (Of_str ''ex-1'')) True None
     = Inr example_handler \<and>
   max_workers example_handler = max (int (length [RunEvaluator ''A'', RunEvaluator ''B''])) 1 \<and>
   init (\<lambda>s. Inr s) (LangChainPlusClient 0) [example_run, unfinished_run]
        [RunEvaluator ''A'', RunEvaluator ''B''] (Some 4) None (Some (Of_str ''ex-1'')) True None
     = Inr (example_handler\<lparr>max_workers := 4\<rparr>) \<and>
   max_workers (example_handler\<lparr>max_workers := 4\<rparr>) = 4"
proof -
  have a: "init (\<lambda>s. Inr s) (LangChainPlusClient 0) [example_run, unfinished_run]
        [RunEvaluator ''A'', RunEvaluator ''B''] None None (Some (Of_str ''ex-1'')) True None
     = Inr example_handler"
    by (simp add: init_def example_handler_def pool_bound_def py_or_def)
  have b: "init (\<lambda>s. Inr s) (LangChainPlusClient 0) [example_run, unfinished_run]
        [RunEvaluator ''A'', RunEvaluator ''B''] (Some 4) None (Some (Of_str ''ex-1'')) True None
     = Inr (example_handler\<lparr>max_workers := 4\<rparr>)"
    by (simp add: init_def example_handler_def pool_bound_def py_or_def)
  show ?thesis using a b pool_bound_of_init [OF a] pool_bound_of_init [OF b] by simp
qed

section \<open>The submission gate and the dispatch\<close>

text \<open>
  Claim C5. With \<^verbatim>\<open>skip_unfinished\<close> set, persisting a run whose outputs are absent
  (or an empty dictionary) only hands one debug record to the logger: no work item is
  queued, the registry of futures is unchanged, no evaluation is called and no run object
  changes.
\<close>

theorem persist_run_skips_unfinished:
  assumes "skip_unfinished st"
    and "outputs (heap st ! run) = None \<or> outputs (heap st ! run) = Some []"
  shows "persist_run run st =
           st\<lparr>logger := logger st @
             [LogRecord DEBUG (''Skipping unfinished run '' @ run_id (heap st ! run)) None]\<rparr> \<and>
         futures (persist_run run st) = futures st \<and>
         work_items (persist_run run st) = work_items st \<and>
         calls (persist_run run st) = calls st \<and>
         heap (persist_run run st) = heap st"
proof -
  from assms have "\<not> eligible run st" by (auto simp: eligible_def no_outputs_def)
  then show ?thesis by (simp add: persist_run_skip)
qed

theorem persist_run_skips_unfinished_witness:
  "skip_unfinished example_handler \<and>
   outputs (heap example_handler ! 1) = None \<and>
   persist_run 1 example_handler =
     example_handler\<lparr>logger := [LogRecord DEBUG ''Skipping unfinished run run-2'' None]\<rparr> \<and>
   futures (persist_run 1 example_handler) = {}"
proof -
  have a: "skip_unfinished example_handler" by (simp add: example_handler_def)
  have b: "outputs (heap example_handler ! 1) = None \<or> outputs (heap example_handler ! 1) = Some []"
    by (simp add: example_handler_def unfinished_run_def)
  show ?thesis using persist_run_skips_unfinished [OF a b]
    by (simp add: example_handler_def unfinished_run_def)
qed

text \<open>
  Claim C6. Persisting a run never changes a run object that existed before, the
  original run among them: the heap as it was is a prefix of the new heap. For an
  eligible run the only new object is the copy, which is the original with
  \<^verbatim>\<open>reference_example_id\<close> set to the handler's \<^verbatim>\<open>example_id\<close>.
\<close>

theorem persist_run_keeps_original_run:
  "take (length (heap st)) (heap (persist_run run st)) = heap st \<and>
   (\<forall>a. a < length (heap st) \<longrightarrow> heap (persist_run run st) ! a = heap st ! a) \<and>
   (eligible run st \<longrightarrow>
      heap (persist_run run st) =
        heap st @ [(heap st ! run)\<lparr>reference_example_id := example_id st\<rparr>])"
  by (cases "eligible run st") (simp_all add: persist_run_eligible persist_run_skip nth_append)

theorem persist_run_keeps_original_run_witness:
  "eligible 0 example_handler \<and>
   heap (persist_run 0 example_handler) ! 0 = example_run \<and>
   heap (persist_run 0 example_handler) =
     [example_run, unfinished_run, example_run\<lparr>reference_example_id := Some ''ex-1''\<rparr>]"
  using persist_run_keeps_original_run [of example_handler 0]
  by (simp add: eligible_def example_handler_def example_run_def no_outputs_def)

text \<open>
  Claim C4. Persisting an eligible run adds to the registry exactly one new future per
  configured evaluator, in the evaluators' order, each for the copy of the run and that
  evaluator. The submission takes no account of what an evaluation does (it does not
  have the evaluation as a parameter): it returns with every new future still pending
  and with no call to \<^verbatim>\<open>evaluate_run\<close> made.
\<close>

theorem persist_run_one_task_per_evaluator:
  assumes "wf_state st" and "eligible run st"
  shows "futures (persist_run run st) =
           futures st \<union> {length (work_items st) ..< length (work_items st) + length (evaluators st)} \<and>
         futures st \<inter> {length (work_items st) ..< length (work_items st) + length (evaluators st)} = {} \<and>
         card (futures (persist_run run st) - futures st) = length (evaluators st) \<and>
         card (futures (persist_run run st)) = card (futures st) + length (evaluators st) \<and>
         work_items (persist_run run st) =
           work_items st @ map (\<lambda>e. \<lparr>fn_run = length (heap st), fn_evaluator = e, fut_state = PENDING\<rparr>) (evaluators st) \<and>
         calls (persist_run run st) = calls st \<and>
         wf_state (persist_run run st)"
proof -
  let ?n = "length (work_items st)" and ?N = "length (evaluators st)"
  have disj: "futures st \<inter> {?n ..< ?n + ?N} = {}"
    using assms(1) by (auto simp: wf_state_def)
  have fin: "finite (futures st)" using assms(1) by (simp add: wf_state_def)
  have fut: "futures (persist_run run st) = futures st \<union> {?n ..< ?n + ?N}"
    by (simp add: persist_run_eligible [OF assms(2)])
  have diff: "futures (persist_run run st) - futures st = {?n ..< ?n + ?N}"
    using disj fut by auto
  have c1: "card (futures (persist_run run st) - futures st) = ?N"
    by (simp add: diff)
  have c2: "card (futures (persist_run run st)) = card (futures st) + ?N"
    using fin disj by (simp add: fut card_Un_disjoint)
  have w: "work_items (persist_run run st) = work_items st @ new_items (length (heap st)) (evaluators st)"
    by (simp add: persist_run_eligible [OF assms(2)])
  have wf': "wf_state (persist_run run st)"
    using assms(1) by (auto simp: wf_state_def fut w new_items_def)
  have cl: "calls (persist_run run st) = calls st"
    by (simp add: persist_run_eligible [OF assms(2)])
  from fut disj c1 c2 w cl wf' show ?thesis by (simp add: new_items_def)
qed

theorem persist_run_one_task_per_evaluator_witness:
  "wf_state example_handler \<and> eligible 0 example_handler \<and>
   futures (persist_run 0 example_handler) = {0, 1} \<and>
   card (futures (persist_run 0 example_handler)) = 2 \<and>
   work_items (persist_run 0 example_handler) =
     [\<lparr>fn_run = 2, fn_evaluator = RunEvaluator ''A'', fut_state = PENDING\<rparr>,
      \<lparr>fn_run = 2, fn_evaluator = RunEvaluator ''B'', fut_state = PENDING\<rparr>]"
proof -
  have a: "wf_state example_handler" by (simp add: wf_state_def example_handler_def)
  have b: "eligible 0 example_handler"
    by (simp add: eligible_def example_handler_def example_run_def no_outputs_def)
  have c: "{0 ..< Suc (Suc 0)} = {0, Suc 0}" by auto
  show ?thesis using a b persist_run_one_task_per_evaluator [OF a b]
    by (simp add: example_handler_def c insert_commute)
qed

section \<open>Evaluating in the project\<close>

lemma client_evaluate_run_eq:
  "client_evaluate_run ev run evaluator st =
     (fst (ev run evaluator st),
      st\<lparr>heap := snd (ev run evaluator st), calls := calls st @ [(run, evaluator, tracing st)]\<rparr>)"
  by (simp add: client_evaluate_run_def split_beta)

lemma evaluate_body_override:
  assumes "project_name st = Some p"
  shows "evaluate_body ev run evaluator st =
     (fst (ev run evaluator (st\<lparr>tracing := Some (Some p, [''eval''])\<rparr>)),
      st\<lparr>heap := snd (ev run evaluator (st\<lparr>tracing := Some (Some p, [''eval''])\<rparr>)),
         calls := calls st @ [(run, evaluator, Some (Some p, [''eval'']))]\<rparr>)"
  using assms
  by (simp add: evaluate_body_def tracing_v2_enabled_def client_evaluate_run_eq)

lemma evaluate_body_no_override_raise:
  assumes "project_name st = None" and "fst (ev run evaluator st) = Inl e"
  shows "evaluate_body ev run evaluator st = (Inl e, after_first ev run evaluator st)"
  using assms
  by (simp add: evaluate_body_def client_evaluate_run_eq after_first_def)

lemma evaluate_body_no_override_ok:
  assumes "project_name st = None" and "fst (ev run evaluator st) = Inr u"
  shows "evaluate_body ev run evaluator st =
     (fst (ev run evaluator ((after_first ev run evaluator st)\<lparr>tracing := Some (None, [''eval''])\<rparr>)),
      (after_first ev run evaluator st)
        \<lparr>heap := snd (ev run evaluator ((after_first ev run evaluator st)\<lparr>tracing := Some (None, [''eval''])\<rparr>)),
         calls := calls st @ [(run, evaluator, tracing st), (run, evaluator, Some (None, [''eval'']))]\<rparr>)"
  using assms
  by (simp add: evaluate_body_def tracing_v2_enabled_def client_evaluate_run_eq after_first_def)

lemma evaluate_body_frame:
  "work_items (snd (evaluate_body ev run evaluator st)) = work_items st \<and>
   futures (snd (evaluate_body ev run evaluator st)) = futures st \<and>
   logger (snd (evaluate_body ev run evaluator st)) = logger st \<and>
   tracing (snd (evaluate_body ev run evaluator st)) = tracing st \<and>
   evaluators (snd (evaluate_body ev run evaluator st)) = evaluators st \<and>
   skip_unfinished (snd (evaluate_body ev run evaluator st)) = skip_unfinished st \<and>
   example_id (snd (evaluate_body ev run evaluator st)) = example_id st \<and>
   project_name (snd (evaluate_body ev run evaluator st)) = project_name st"
proof (cases "project_name st")
  case (Some p)
  then show ?thesis by (simp add: evaluate_body_override)
next
  case None
  show ?thesis
  proof (cases "fst (ev run evaluator st)")
    case (Inl e)
    with None show ?thesis by (simp add: evaluate_body_no_override_raise after_first_def)
  next
    case (Inr u)
    with None show ?thesis by (simp add: evaluate_body_no_override_ok after_first_def)
  qed
qed

lemma evaluate_in_project_eq:
  "evaluate_in_project ev run evaluator st =
     (fst (evaluate_body ev run evaluator st),
      case fst (evaluate_body ev run evaluator st) of
        Inr u \<Rightarrow> snd (evaluate_body ev run evaluator st)
      | Inl e \<Rightarrow>
          if is_Exception e then
            (snd (evaluate_body ev run evaluator st))
              \<lparr>logger := logger st @
                 [LogRecord ERROR
                    (error_message (heap (snd (evaluate_body ev run evaluator st)) ! run) evaluator e)
                    (Some e)]\<rparr>
          else snd (evaluate_body ev run evaluator st))"
proof -
  obtain r st1 where b: "evaluate_body ev run evaluator st = (r, st1)"
    by (cases "evaluate_body ev run evaluator st")
  have "logger st1 = logger st"
    using evaluate_body_frame [of ev run evaluator st] by (simp add: b)
  then show ?thesis
    by (cases r) (simp_all add: evaluate_in_project_def b)
qed

lemma evaluate_in_project_frame:
  "work_items (snd (evaluate_in_project ev run evaluator st)) = work_items st \<and>
   futures (snd (evaluate_in_project ev run evaluator st)) = futures st \<and>
   calls (snd (evaluate_in_project ev run evaluator st)) =
     calls (snd (evaluate_body ev run evaluator st)) \<and>
   heap (snd (evaluate_in_project ev run evaluator st)) =
     heap (snd (evaluate_body ev run evaluator st))"
  by (simp add: evaluate_in_project_eq evaluate_body_frame split: sum.splits)

lemma run_work_item_work_items:
  "length (work_items (run_work_item ev f st)) = length (work_items st) \<and>
   map fn_run (work_items (run_work_item ev f st)) = map fn_run (work_items st) \<and>
   map fn_evaluator (work_items (run_work_item ev f st)) = map fn_evaluator (work_items st) \<and>
   futures (run_work_item ev f st) = futures st"
  by (simp add: run_work_item_def Let_def split_beta evaluate_in_project_frame map_update
        list_update_same_conv [THEN iffD2])

text \<open>
  Claim C1, as amended. With a project name configured, \<^verbatim>\<open>_evaluate_in_project\<close> calls
  \<^verbatim>\<open>evaluate_run\<close> exactly once, inside the scoped tracing context (the direct call is
  guarded by \<^verbatim>\<open>if self.project_name is None\<close>). With no project name it calls it
  directly and, when that call returns normally, once more inside the scoped context
  (project \<^verbatim>\<open>None\<close>, tag \<^verbatim>\<open>eval\<close>): twice. When the direct call raises, it is the
  only call.
\<close>

theorem evaluate_in_project_calls:
  "(project_name st = Some p \<longrightarrow>
      calls (snd (evaluate_in_project ev run evaluator st)) =
        calls st @ [(run, evaluator, Some (Some p, [''eval'']))]) \<and>
   (project_name st = None \<and> fst (ev run evaluator st) = Inr () \<longrightarrow>
      calls (snd (evaluate_in_project ev run evaluator st)) =
        calls st @ [(run, evaluator, tracing st), (run, evaluator, Some (None, [''eval'']))]) \<and>
   (project_name st = None \<and> fst (ev run evaluator st) = Inl e \<longrightarrow>
      calls (snd (evaluate_in_project ev run evaluator st)) =
        calls st @ [(run, evaluator, tracing st)])"
  by (simp add: evaluate_in_project_frame evaluate_body_override evaluate_body_no_override_ok
        evaluate_body_no_override_raise after_first_def)

theorem evaluate_in_project_calls_witness:
  "project_name example_handler = None \<and>
   fst (evaluate_ok 0 (RunEvaluator ''A'') example_handler) = Inr () \<and>
   calls (snd (evaluate_in_project evaluate_ok 0 (RunEvaluator ''A'') example_handler)) =
     [(0, RunEvaluator ''A'', None), (0, RunEvaluator ''A'', Some (None, [''eval'']))] \<and>
   project_name (example_handler\<lparr>project_name := Some ''evals''\<rparr>) = Some ''evals'' \<and>
   calls (snd (evaluate_in_project evaluate_ok 0 (RunEvaluator ''A'')
            (example_handler\<lparr>project_name := Some ''evals''\<rparr>))) =
     [(0, RunEvaluator ''A'', Some (Some ''evals'', [''eval'']))]"
  using evaluate_in_project_calls [of example_handler "''evals''" evaluate_ok 0 "RunEvaluator ''A''" undefined]
    evaluate_in_project_calls [of "example_handler\<lparr>project_name := Some ''evals''\<rparr>" "''evals''" evaluate_ok 0
          "RunEvaluator ''A''" undefined]
  by (simp add: example_handler_def evaluate_ok_def)

text \<open>
  The claim as stated fails: with the project name \<^verbatim>\<open>evals\<close> configured, one task makes
  one call of \<^verbatim>\<open>evaluate_run\<close>, not two.
\<close>

theorem evaluate_in_project_calls_counterexample:
  "project_name (example_handler\<lparr>project_name := Some ''evals''\<rparr>) \<noteq> None \<and>
   evaluate_in_project evaluate_ok 0 (RunEvaluator ''A'')
       (example_handler\<lparr>project_name := Some ''evals''\<rparr>) =
     (Inr (), example_handler\<lparr>project_name := Some ''evals'',
                calls := [(0, RunEvaluator ''A'', Some (Some ''evals'', [''eval'']))]\<rparr>) \<and>
   length (calls (snd (evaluate_in_project evaluate_ok 0 (RunEvaluator ''A'')
       (example_handler\<lparr>project_name := Some ''evals''\<rparr>)))) = 1"
  by (simp add: evaluate_in_project_def evaluate_body_def tracing_v2_enabled_def
        client_evaluate_run_def evaluate_ok_def example_handler_def)

text \<open>
  Claim C7, as amended. What \<^verbatim>\<open>_evaluate_in_project\<close> raises is what the
  \<^verbatim>\<open>evaluate_run\<close> calls raise: the scoped call alone with a project name, the direct
  call and, if it returned, the scoped one without. An exception that is an instance of
  \<^verbatim>\<open>Exception\<close> is logged once at error level, with the run's id, the evaluator's class
  name, the exception's text and the exception itself, and the same exception is raised
  again; an exception outside \<^verbatim>\<open>Exception\<close> passes through \<^verbatim>\<open>except Exception\<close> with
  nothing logged; a normal return logs nothing.
\<close>

theorem evaluate_in_project_logs_and_reraises:
  assumes "evaluate_in_project ev run evaluator st = (r, st')"
  shows "(\<forall>e. r = Inl e \<and> is_Exception e \<longrightarrow>
            logger st' = logger st @
              [LogRecord ERROR
                 (''Error evaluating run '' @ run_id (heap st' ! run) @ '' with '' @
                  class_name evaluator @ '': '' @ exn_str e) (Some e)]) \<and>
         (\<forall>e. r = Inl e \<and> \<not> is_Exception e \<longrightarrow> logger st' = logger st) \<and>
         (r = Inr () \<longrightarrow> logger st' = logger st) \<and>
         (\<forall>p. project_name st = Some p \<longrightarrow>
            r = fst (ev run evaluator (st\<lparr>tracing := Some (Some p, [''eval''])\<rparr>))) \<and>
         (\<forall>e. project_name st = None \<and> fst (ev run evaluator st) = Inl e \<longrightarrow> r = Inl e) \<and>
         (project_name st = None \<and> fst (ev run evaluator st) = Inr () \<longrightarrow>
            r = fst (ev run evaluator
                  ((after_first ev run evaluator st)\<lparr>tracing := Some (None, [''eval''])\<rparr>)))"
proof -
  let ?b = "evaluate_body ev run evaluator st"
  let ?s = "case fst ?b of Inr u \<Rightarrow> snd ?b
      | Inl e \<Rightarrow> if is_Exception e then
            (snd ?b)\<lparr>logger := logger st @
                 [LogRecord ERROR (error_message (heap (snd ?b) ! run) evaluator e) (Some e)]\<rparr>
          else snd ?b"
  from assms have "(fst ?b, ?s) = (r, st')" by (simp only: evaluate_in_project_eq)
  then have r: "r = fst ?b" and st': "st' = ?s" by blast+
  have lg: "logger (snd ?b) = logger st" by (simp add: evaluate_body_frame)
  have 1: "\<forall>e. r = Inl e \<and> is_Exception e \<longrightarrow>
            logger st' = logger st @
              [LogRecord ERROR
                 (''Error evaluating run '' @ run_id (heap st' ! run) @ '' with '' @
                  class_name evaluator @ '': '' @ exn_str e) (Some e)]"
    using r st' by (auto simp: error_message_def)
  have 2: "\<forall>e. r = Inl e \<and> \<not> is_Exception e \<longrightarrow> logger st' = logger st"
    using r st' lg by auto
  have 3: "r = Inr () \<longrightarrow> logger st' = logger st"
    using r st' lg by auto
  have 4: "\<forall>p. project_name st = Some p \<longrightarrow>
            r = fst (ev run evaluator (st\<lparr>tracing := Some (Some p, [''eval''])\<rparr>))"
    using r by (simp add: evaluate_body_override)
  have 5: "\<forall>e. project_name st = None \<and> fst (ev run evaluator st) = Inl e \<longrightarrow> r = Inl e"
    using r by (simp add: evaluate_body_no_override_raise)
  have 6: "project_name st = None \<and> fst (ev run evaluator st) = Inr () \<longrightarrow>
            r = fst (ev run evaluator
                  ((after_first ev run evaluator st)\<lparr>tracing := Some (None, [''eval''])\<rparr>))"
    using r by (simp add: evaluate_body_no_override_ok)
  from 1 2 3 4 5 6 show ?thesis by blast
qed

theorem evaluate_in_project_logs_and_reraises_witness:
  "evaluate_in_project evaluate_boom 0 (RunEvaluator ''A'') example_handler =
     (Inl (Exception ''boom''),
      example_handler\<lparr>calls := [(0, RunEvaluator ''A'', None)],
        logger := [LogRecord ERROR ''Error evaluating run run-1 with A: boom''
                     (Some (Exception ''boom''))]\<rparr>) \<and>
   is_Exception (Exception ''boom'') \<and>
   logger (example_handler\<lparr>calls := [(0, RunEvaluator ''A'', None)],
        logger := [LogRecord ERROR ''Error evaluating run run-1 with A: boom''
                     (Some (Exception ''boom''))]\<rparr>) =
     [LogRecord ERROR ''Error evaluating run run-1 with A: boom'' (Some (Exception ''boom''))] \<and>
   evaluate_in_project evaluate_ok 0 (RunEvaluator ''A'') example_handler =
     (Inr (), example_handler\<lparr>calls := [(0, RunEvaluator ''A'', None),
                                          (0, RunEvaluator ''A'', Some (None, [''eval'']))]\<rparr>) \<and>
   logger (example_handler\<lparr>calls := [(0, RunEvaluator ''A'', None),
                                          (0, RunEvaluator ''A'', Some (None, [''eval'']))]\<rparr>) = []"
proof -
  have a: "evaluate_in_project evaluate_boom 0 (RunEvaluator ''A'') example_handler =
     (Inl (Exception ''boom''),
      example_handler\<lparr>calls := [(0, RunEvaluator ''A'', None)],
        logger := [LogRecord ERROR ''Error evaluating run run-1 with A: boom''
                     (Some (Exception ''boom''))]\<rparr>)"
    by (simp add: evaluate_in_project_def evaluate_body_def client_evaluate_run_def
          evaluate_boom_def example_handler_def error_message_def example_run_def)
  have b: "evaluate_in_project evaluate_ok 0 (RunEvaluator ''A'') example_handler =
     (Inr (), example_handler\<lparr>calls := [(0, RunEvaluator ''A'', None),
                                          (0, RunEvaluator ''A'', Some (None, [''eval'']))]\<rparr>)"
    by (simp add: evaluate_in_project_def evaluate_body_def client_evaluate_run_def
          tracing_v2_enabled_def evaluate_ok_def example_handler_def)
  show ?thesis using a b evaluate_in_project_logs_and_reraises [OF a] evaluate_in_project_logs_and_reraises [OF b]
    by (simp add: example_handler_def example_run_def)
qed

text \<open>
  The claim as stated fails: an evaluation that raises an exception outside the
  \<^verbatim>\<open>Exception\<close> hierarchy leaves the logger empty.
\<close>

theorem evaluate_in_project_logs_and_reraises_counterexample:
  "evaluate_in_project evaluate_exit 0 (RunEvaluator ''A'') example_handler =
     (Inl (BaseException ''exit''), example_handler\<lparr>calls := [(0, RunEvaluator ''A'', None)]\<rparr>) \<and>
   logger (snd (evaluate_in_project evaluate_exit 0 (RunEvaluator ''A'') example_handler)) = []"
  by (simp add: evaluate_in_project_def evaluate_body_def client_evaluate_run_def
        evaluate_exit_def example_handler_def)

section \<open>The shared copy\<close>

text \<open>
  Claim C10. Persisting an eligible run creates exactly one new run object, the copy,
  and every work item the submission queues refers to that one object. It still does
  after any of the work items has run, under any evaluation: what one evaluator's task
  does to the copy is what the next one is given.
\<close>

theorem persist_run_shares_one_copy:
  assumes "eligible run st"
  shows "length (heap (persist_run run st)) = Suc (length (heap st)) \<and>
         heap (persist_run run st) ! length (heap st) =
           (heap st ! run)\<lparr>reference_example_id := example_id st\<rparr> \<and>
         length (work_items (persist_run run st)) =
           length (work_items st) + length (evaluators st) \<and>
         (\<forall>f. length (work_items st) \<le> f \<and> f < length (work_items (persist_run run st)) \<longrightarrow>
            fn_run (work_items (persist_run run st) ! f) = length (heap st)) \<and>
         (\<forall>f g ev. length (work_items st) \<le> g \<and> g < length (work_items (persist_run run st)) \<longrightarrow>
            fn_run (work_items (run_work_item ev f (persist_run run st)) ! g) = length (heap st))"
proof -
  let ?st' = "persist_run run st"
  have h: "heap ?st' = heap st @ [(heap st ! run)\<lparr>reference_example_id := example_id st\<rparr>]"
    by (simp add: persist_run_eligible [OF assms])
  have w: "work_items ?st' = work_items st @ new_items (length (heap st)) (evaluators st)"
    by (simp add: persist_run_eligible [OF assms])
  have new: "\<forall>f. length (work_items st) \<le> f \<and> f < length (work_items ?st') \<longrightarrow>
            fn_run (work_items ?st' ! f) = length (heap st)"
    by (auto simp: w nth_append new_items_def)
  have "\<forall>f g ev. length (work_items st) \<le> g \<and> g < length (work_items ?st') \<longrightarrow>
            fn_run (work_items (run_work_item ev f ?st') ! g) = length (heap st)"
  proof (intro allI impI)
    fix f g ev
    assume g: "length (work_items st) \<le> g \<and> g < length (work_items ?st')"
    have len: "length (work_items (run_work_item ev f ?st')) = length (work_items ?st')"
      using run_work_item_work_items [of ev f ?st'] by blast
    have "fn_run (work_items (run_work_item ev f ?st') ! g) =
          map fn_run (work_items (run_work_item ev f ?st')) ! g"
      using g len by (simp only: nth_map)
    also have "\<dots> = map fn_run (work_items ?st') ! g"
      using run_work_item_work_items [of ev f ?st'] by simp
    also have "\<dots> = fn_run (work_items ?st' ! g)" using g by (simp only: nth_map)
    finally show "fn_run (work_items (run_work_item ev f ?st') ! g) = length (heap st)"
      using new g by simp
  qed
  with new show ?thesis by (simp add: h w new_items_def)
qed

theorem persist_run_shares_one_copy_witness:
  "eligible 0 example_handler \<and>
   length (heap (persist_run 0 example_handler)) = 3 \<and>
   map fn_run (work_items (persist_run 0 example_handler)) = [2, 2] \<and>
   fn_run (work_items (run_work_item evaluate_mark 0 (persist_run 0 example_handler)) ! 1) = 2 \<and>
   other_fields (heap (run_work_item evaluate_mark 0 (persist_run 0 example_handler)) ! 2) =
     [(''seen_by'', ''A''), (''seen_by'', ''A'')]"
proof -
  have a: "eligible 0 example_handler"
    by (simp add: eligible_def example_handler_def example_run_def no_outputs_def)
  have b: "persist_run 0 example_handler =
     example_handler\<lparr>heap := [example_run, unfinished_run,
                               example_run\<lparr>reference_example_id := Some ''ex-1''\<rparr>],
        work_items := [\<lparr>fn_run = 2, fn_evaluator = RunEvaluator ''A'', fut_state = PENDING\<rparr>,
                       \<lparr>fn_run = 2, fn_evaluator = RunEvaluator ''B'', fut_state = PENDING\<rparr>],
        futures := {0, 1}\<rparr>"
    by (simp add: persist_run_eligible [OF a] new_items_def)
       (auto simp: example_handler_def)
  have c: "other_fields (heap (run_work_item evaluate_mark 0 (persist_run 0 example_handler)) ! 2) =
     [(''seen_by'', ''A''), (''seen_by'', ''A'')]"
    unfolding b
    by (simp add: run_work_item_def evaluate_in_project_def evaluate_body_def
          client_evaluate_run_def tracing_v2_enabled_def evaluate_mark_def example_handler_def
          example_run_def)
  show ?thesis using a c persist_run_shares_one_copy [OF a]
    unfolding b by (simp add: example_handler_def)
qed

section \<open>The join\<close>

lemma snapshot_set:
  assumes "finite (futures st)"
  shows "set (snapshot st) = futures st \<and> distinct (snapshot st)"
  using assms by (simp add: snapshot_def)

lemma remove_loop_ok:
  "distinct fs \<Longrightarrow> set fs \<subseteq> futures st \<Longrightarrow>
   remove_loop fs st = (Inr (), st\<lparr>futures := futures st - set fs\<rparr>)"
proof (induction fs arbitrary: st)
  case Nil
  then show ?case by simp
next
  case (Cons f fs)
  let ?st = "st\<lparr>futures := futures st - {f}\<rparr>"
  from Cons.prems have f: "f \<in> futures st" and d: "distinct fs"
    and sub: "set fs \<subseteq> futures ?st" by auto
  have eq: "futures st - {f} - set fs = futures st - insert f (set fs)" by auto
  have "remove_loop (f # fs) st = remove_loop fs ?st" using f by (simp add: set_remove_def)
  also have "\<dots> = (Inr (), ?st\<lparr>futures := futures ?st - set fs\<rparr>)"
    by (rule Cons.IH [OF d sub])
  finally show ?case by (simp add: eq)
qed

lemma remove_loop_Inr:
  "fst (remove_loop fs st) = Inr () \<Longrightarrow> distinct fs \<and> set fs \<subseteq> futures st"
proof (induction fs arbitrary: st)
  case Nil
  then show ?case by simp
next
  case (Cons f fs)
  show ?case
  proof (cases "f \<in> futures st")
    case False
    with Cons.prems show ?thesis by (simp add: set_remove_def)
  next
    case True
    with Cons.prems have "fst (remove_loop fs (st\<lparr>futures := futures st - {f}\<rparr>)) = Inr ()"
      by (simp add: set_remove_def)
    from Cons.IH [OF this] True show ?thesis by auto
  qed
qed

lemma remove_loop_first_absent:
  "f \<notin> futures st \<Longrightarrow> remove_loop (f # fs) st = (Inl (KeyError f), st)"
  by (simp add: set_remove_def)

lemma wait_Some:
  "wait ev fs evs st = Some (st1, rest) \<Longrightarrow>
   \<exists>used. evs = used @ rest \<and> st1 = run_events ev used st \<and> all_done fs st1 \<and>
     (\<forall>k<length used. \<not> all_done fs (run_events ev (take k used) st))"
proof (induction evs arbitrary: st)
  case Nil
  then show ?case by (auto split: if_splits)
next
  case (Cons e es)
  show ?case
  proof (cases "all_done fs st")
    case True
    with Cons.prems have "st1 = st \<and> rest = e # es" by simp
    with True show ?thesis by (intro exI [of _ "[]"]) simp
  next
    case False
    with Cons.prems have "wait ev fs es (env_step ev e st) = Some (st1, rest)" by simp
    from Cons.IH [OF this] obtain used where u: "es = used @ rest"
      "st1 = run_events ev used (env_step ev e st)" "all_done fs st1"
      "\<forall>k<length used. \<not> all_done fs (run_events ev (take k used) (env_step ev e st))"
      by blast
    have "\<forall>k<length (e # used). \<not> all_done fs (run_events ev (take k (e # used)) st)"
    proof (intro allI impI)
      fix k assume "k < length (e # used)"
      then show "\<not> all_done fs (run_events ev (take k (e # used)) st)"
        using False u(4) by (cases k) auto
    qed
    with u show ?thesis by (intro exI [of _ "e # used"]) simp
  qed
qed

lemma wait_immediate:
  "all_done fs st \<Longrightarrow> wait ev fs evs st = Some (st, evs)"
  by (cases evs) simp_all

lemma wait_returns:
  "all_done fs (run_events ev evs st) \<Longrightarrow> \<exists>st1 rest. wait ev fs evs st = Some (st1, rest)"
  by (induction evs arbitrary: st) auto

lemma run_work_item_items:
  "work_items (run_work_item ev f st) =
     (if f < length (work_items st) \<and> fut_state (work_items st ! f) = PENDING then
        (work_items st)[f := (work_items st ! f)\<lparr>fut_state := FINISHED
           (fst (evaluate_in_project ev (fn_run (work_items st ! f))
                   (fn_evaluator (work_items st ! f)) st))\<rparr>]
      else work_items st)"
  by (simp add: run_work_item_def Let_def split_beta evaluate_in_project_frame)

lemma run_work_item_done:
  "f < length (work_items st) \<Longrightarrow> future_done (run_work_item ev f st) f"
  by (simp add: future_done_def run_work_item_items)

lemma run_work_item_done_mono:
  "future_done st g \<Longrightarrow> future_done (run_work_item ev f st) g"
  by (cases "g = f") (auto simp: future_done_def run_work_item_items)

lemma persist_run_items:
  "\<exists>new. work_items (persist_run r st) = work_items st @ new"
  by (cases "eligible r st") (simp_all add: persist_run_eligible persist_run_skip)

lemma persist_run_done_mono:
  assumes "future_done st g"
  shows "future_done (persist_run r st) g"
proof -
  obtain new where "work_items (persist_run r st) = work_items st @ new"
    using persist_run_items by blast
  with assms show ?thesis by (simp add: future_done_def nth_append)
qed

lemma env_step_done_mono:
  "future_done st g \<Longrightarrow> future_done (env_step ev e st) g"
proof (cases e)
  case (Worker f)
  assume "future_done st g"
  with Worker show ?thesis by (simp add: run_work_item_done_mono)
next
  case (Persist r)
  assume "future_done st g"
  with Persist show ?thesis by (simp add: persist_run_done_mono)
next
  case (Other_remove f)
  assume "future_done st g"
  with Other_remove show ?thesis by (simp add: future_done_def)
qed

lemma run_events_done_mono:
  "future_done st g \<Longrightarrow> future_done (run_events ev evs st) g"
  by (induction evs arbitrary: st) (simp_all add: env_step_done_mono)

lemma run_events_append:
  "run_events ev (xs @ ys) st = run_events ev ys (run_events ev xs st)"
  by (induction xs arbitrary: st) simp_all

lemma workers_finish:
  "\<forall>f \<in> set fs. f < length (work_items st) \<Longrightarrow>
   \<forall>f \<in> set fs. future_done (run_events ev (map Worker fs) st) f"
proof (induction fs arbitrary: st)
  case Nil
  then show ?case by simp
next
  case (Cons x xs)
  let ?st = "run_work_item ev x st"
  have len: "length (work_items ?st) = length (work_items st)"
    using run_work_item_work_items [of ev x st] by blast
  have x: "future_done ?st x" using Cons.prems by (simp add: run_work_item_done)
  have "\<forall>f \<in> set xs. f < length (work_items ?st)" using Cons.prems len by simp
  from Cons.IH [OF this] have "\<forall>f \<in> set xs. future_done (run_events ev (map Worker xs) ?st) f" .
  moreover have "future_done (run_events ev (map Worker xs) ?st) x"
    using x by (rule run_events_done_mono)
  ultimately show ?case by simp
qed

lemma env_step_futures_mono:
  "\<not> is_Other_remove e \<Longrightarrow> futures st \<subseteq> futures (env_step ev e st)"
proof (cases e)
  case (Worker f)
  then show ?thesis using run_work_item_work_items [of ev f st] by simp
next
  case (Persist r)
  then show ?thesis
    by (cases "eligible r st") (simp_all add: persist_run_eligible persist_run_skip)
next
  case (Other_remove f)
  assume "\<not> is_Other_remove e"
  with Other_remove show ?thesis by simp
qed

lemma run_events_futures_mono:
  "\<forall>e \<in> set evs. \<not> is_Other_remove e \<Longrightarrow> futures st \<subseteq> futures (run_events ev evs st)"
proof (induction evs arbitrary: st)
  case Nil
  then show ?case by simp
next
  case (Cons e es)
  have "futures st \<subseteq> futures (env_step ev e st)"
    using Cons.prems by (simp add: env_step_futures_mono)
  also have "\<dots> \<subseteq> futures (run_events ev es (env_step ev e st))"
    using Cons.prems by (intro Cons.IH) simp
  finally show ?case by simp
qed

lemma env_step_wf:
  assumes "wf_state st"
  shows "wf_state (env_step ev e st)"
proof (cases e)
  case (Worker f)
  then show ?thesis
    using assms run_work_item_work_items [of ev f st] by (simp add: wf_state_def)
next
  case (Persist r)
  show ?thesis
  proof (cases "eligible r st")
    case True
    with assms Persist show ?thesis
      by (auto simp: wf_state_def persist_run_eligible new_items_def)
  next
    case False
    with assms Persist show ?thesis by (simp add: wf_state_def persist_run_skip)
  qed
next
  case (Other_remove f)
  with assms show ?thesis by (auto simp: wf_state_def)
qed

lemma run_events_wf:
  "wf_state st \<Longrightarrow> wf_state (run_events ev evs st)"
  by (induction evs arbitrary: st) (simp_all add: env_step_wf)

lemma all_done_iff: "all_done fs st = (\<forall>f \<in> set fs. future_done st f)"
  by (simp add: all_done_def list_all_iff)

lemma wait_for_futures_returns:
  assumes "wf_state st"
  shows "\<exists>r st' rest. wait_for_futures ev (map Worker (snapshot st) @ later) st = Some (r, st', rest)"
proof -
  let ?fs = "snapshot st"
  from assms have fs: "set ?fs = futures st" by (simp add: wf_state_def snapshot_set)
  with assms have "\<forall>f \<in> set ?fs. f < length (work_items st)" by (simp add: wf_state_def)
  then have "\<forall>f \<in> set ?fs. future_done (run_events ev (map Worker ?fs) st) f"
    by (rule workers_finish)
  then have "\<forall>f \<in> set ?fs. future_done (run_events ev (map Worker ?fs @ later) st) f"
    by (simp add: run_events_append run_events_done_mono)
  then have "all_done ?fs (run_events ev (map Worker ?fs @ later) st)" by (simp add: all_done_iff)
  from wait_returns [OF this] obtain st1 rest where
    "wait ev ?fs (map Worker ?fs @ later) st = Some (st1, rest)" by blast
  then show ?thesis by (simp add: wait_for_futures_def Let_def split: prod.splits)
qed

lemma persist_example_run:
  "persist_run 0 example_handler =
     example_handler\<lparr>heap := [example_run, unfinished_run,
                               example_run\<lparr>reference_example_id := Some ''ex-1''\<rparr>],
        work_items := [\<lparr>fn_run = 2, fn_evaluator = RunEvaluator ''A'', fut_state = PENDING\<rparr>,
                       \<lparr>fn_run = 2, fn_evaluator = RunEvaluator ''B'', fut_state = PENDING\<rparr>],
        futures := {0, 1}\<rparr>"
proof -
  have a: "eligible 0 example_handler"
    by (simp add: eligible_def example_handler_def example_run_def no_outputs_def)
  show ?thesis
    by (simp add: persist_run_eligible [OF a] new_items_def) (auto simp: example_handler_def)
qed

lemma wf_persist_example: "wf_state (persist_run 0 example_handler)"
  unfolding persist_example_run by (simp add: wf_state_def)

text \<open>
  Claim C8. With an empty registry \<^verbatim>\<open>wait_for_futures\<close> returns at once (it consumes
  none of what the other threads do), raises nothing, and leaves the registry, and the
  whole state, as it was.
\<close>

theorem wait_for_futures_empty_registry:
  assumes "futures st = {}"
  shows "wait_for_futures ev evs st = Some (Inr (), st, evs)"
proof -
  have "snapshot st = []" using assms by (simp add: snapshot_def)
  then show ?thesis
    by (simp add: wait_for_futures_def wait_immediate all_done_def)
qed

theorem wait_for_futures_empty_registry_witness:
  "futures example_handler = {} \<and>
   wait_for_futures evaluate_ok [Worker 0] example_handler =
     Some (Inr (), example_handler, [Worker 0])"
proof -
  have a: "futures example_handler = {}" by (simp add: example_handler_def)
  show ?thesis using a wait_for_futures_empty_registry [OF a, of evaluate_ok "[Worker 0]"] by simp
qed

text \<open>
  Claim C3, as amended. The removal loop of \<^verbatim>\<open>wait_for_futures\<close> completes without
  raising exactly when every future of the snapshot is still in the registry when its
  removal runs (the snapshot holds each future once); it then removes exactly the
  snapshot. Removing a future that is absent raises \<^verbatim>\<open>KeyError\<close>. So a call raises
  nothing as long as no other caller removes a future of its snapshot while it waits:
  workers finishing and further submissions never make it raise.
\<close>

theorem remove_loop_raises_iff_absent:
  "(fst (remove_loop fs st) = Inr ()) = (distinct fs \<and> set fs \<subseteq> futures st) \<and>
   (distinct fs \<and> set fs \<subseteq> futures st \<longrightarrow>
      remove_loop fs st = (Inr (), st\<lparr>futures := futures st - set fs\<rparr>)) \<and>
   (f \<notin> futures st \<longrightarrow> remove_loop (f # fs) st = (Inl (KeyError f), st)) \<and>
   (wf_state st \<and> (\<forall>e \<in> set evs. \<not> is_Other_remove e) \<longrightarrow>
      (\<forall>err st' rest. wait_for_futures ev evs st \<noteq> Some (Inl err, st', rest)))"
proof -
  have 1: "(fst (remove_loop fs st) = Inr ()) = (distinct fs \<and> set fs \<subseteq> futures st)"
    using remove_loop_Inr [of fs st] remove_loop_ok [of fs st] by auto
  have 2: "distinct fs \<and> set fs \<subseteq> futures st \<longrightarrow>
      remove_loop fs st = (Inr (), st\<lparr>futures := futures st - set fs\<rparr>)"
    by (simp add: remove_loop_ok)
  have 3: "f \<notin> futures st \<longrightarrow> remove_loop (f # fs) st = (Inl (KeyError f), st)"
    using remove_loop_first_absent [of f st fs] by blast
  have 4: "wf_state st \<and> (\<forall>e \<in> set evs. \<not> is_Other_remove e) \<longrightarrow>
      (\<forall>err st' rest. wait_for_futures ev evs st \<noteq> Some (Inl err, st', rest))"
  proof (intro impI allI notI)
    fix err st' rest
    assume a: "wf_state st \<and> (\<forall>e \<in> set evs. \<not> is_Other_remove e)"
      and r: "wait_for_futures ev evs st = Some (Inl err, st', rest)"
    let ?fs = "snapshot st"
    from a have fs: "set ?fs = futures st" "distinct ?fs"
      by (simp_all add: wf_state_def snapshot_set)
    from r obtain st1 where w: "wait ev ?fs evs st = Some (st1, rest)"
      and rl: "remove_loop ?fs st1 = (Inl err, st')"
      by (auto simp: wait_for_futures_def Let_def split: option.splits prod.splits)
    from wait_Some [OF w] obtain used where u: "evs = used @ rest" "st1 = run_events ev used st"
      by blast
    from a u(1) have "\<forall>e \<in> set used. \<not> is_Other_remove e" by auto
    then have "futures st \<subseteq> futures st1" unfolding u(2) by (rule run_events_futures_mono)
    with fs have "remove_loop ?fs st1 = (Inr (), st1\<lparr>futures := futures st1 - set ?fs\<rparr>)"
      by (intro remove_loop_ok) simp_all
    with rl show False by simp
  qed
  from 1 2 3 4 show ?thesis by blast
qed

theorem remove_loop_raises_iff_absent_witness:
  "distinct [0, 1 :: nat] \<and> set [0, 1] \<subseteq> futures (persist_run 0 example_handler) \<and>
   remove_loop [0, 1] (persist_run 0 example_handler) =
     (Inr (), (persist_run 0 example_handler)\<lparr>futures := {}\<rparr>) \<and>
   wf_state (persist_run 0 example_handler) \<and>
   \<not> list_ex is_Other_remove [Worker 0, Persist 0, Worker 1] \<and>
   map_option fst (wait_for_futures evaluate_ok [Worker 0, Persist 0, Worker 1]
                     (persist_run 0 example_handler)) = Some (Inr ())"
proof -
  let ?s = "persist_run 0 example_handler"
  have a: "distinct [0, 1 :: nat] \<and> set [0, 1] \<subseteq> futures ?s"
    unfolding persist_example_run by simp
  have f: "futures ?s - set [0, 1] = {}" unfolding persist_example_run by simp
  have w: "wf_state ?s" by (rule wf_persist_example)
  have n: "\<forall>e \<in> set [Worker 0, Persist 0, Worker 1]. \<not> is_Other_remove e" by simp
  have r: "map_option fst (wait_for_futures evaluate_ok [Worker 0, Persist 0, Worker 1] ?s)
             = Some (Inr ())"
    by code_simp
  from remove_loop_raises_iff_absent [of "[0, 1]" ?s undefined "[Worker 0, Persist 0, Worker 1]" evaluate_ok] a
  have "remove_loop [0, 1] ?s = (Inr (), ?s\<lparr>futures := futures ?s - set [0, 1]\<rparr>)" by blast
  with a w r f show ?thesis by simp
qed

text \<open>
  The claim as stated fails: a snapshot holding future 0 and a registry without it raise
  \<^verbatim>\<open>KeyError\<close>, and so does a whole call when another caller has removed future 0 during
  the wait.
\<close>

theorem remove_loop_raises_iff_absent_counterexample:
  "remove_loop [0] example_handler = (Inl (KeyError 0), example_handler) \<and>
   map_option fst (wait_for_futures evaluate_ok [Other_remove 0, Worker 0, Worker 1]
                     (persist_run 0 example_handler)) = Some (Inl (KeyError 0))"
  by code_simp

text \<open>
  Claim C2. When \<^verbatim>\<open>wait_for_futures\<close> returns normally, every future that was in the
  registry at the call is finished and is no longer in the registry. The call waits for
  the snapshot only: it returns at the first moment the snapshot is finished (before
  that, some future of the snapshot was always pending), and what is left in the
  registry is exactly what the other threads added meanwhile, finished or not.
\<close>

theorem wait_for_futures_joins_snapshot:
  assumes "wf_state st" and "wait_for_futures ev evs st = Some (Inr (), st', rest)"
  shows "(\<forall>f \<in> futures st. future_done st' f \<and> f \<notin> futures st') \<and>
         (\<exists>used. evs = used @ rest \<and>
            futures st' = futures (run_events ev used st) - futures st \<and>
            work_items st' = work_items (run_events ev used st) \<and>
            (\<forall>k<length used. \<exists>f \<in> futures st. \<not> future_done (run_events ev (take k used) st) f))"
proof -
  let ?fs = "snapshot st"
  from assms(1) have fs: "set ?fs = futures st" "distinct ?fs"
    by (simp_all add: wf_state_def snapshot_set)
  from assms(2) obtain st1 where w: "wait ev ?fs evs st = Some (st1, rest)"
    and rl: "remove_loop ?fs st1 = (Inr (), st')"
    by (auto simp: wait_for_futures_def Let_def split: option.splits prod.splits)
  from wait_Some [OF w] obtain used where u: "evs = used @ rest" "st1 = run_events ev used st"
    "all_done ?fs st1" "\<forall>k<length used. \<not> all_done ?fs (run_events ev (take k used) st)"
    by blast
  from rl have "fst (remove_loop ?fs st1) = Inr ()" by simp
  then have "distinct ?fs \<and> set ?fs \<subseteq> futures st1" by (rule remove_loop_Inr)
  then have "remove_loop ?fs st1 = (Inr (), st1\<lparr>futures := futures st1 - set ?fs\<rparr>)"
    by (simp add: remove_loop_ok)
  with rl have st': "st' = st1\<lparr>futures := futures st1 - futures st\<rparr>" by (simp add: fs)
  have a: "\<forall>f \<in> futures st. future_done st' f \<and> f \<notin> futures st'"
    using u(3) by (simp add: st' all_done_iff fs future_done_def)
  have b: "\<forall>k<length used. \<exists>f \<in> futures st. \<not> future_done (run_events ev (take k used) st) f"
    using u(4) by (simp add: all_done_iff fs)
  have "evs = used @ rest \<and>
        futures st' = futures (run_events ev used st) - futures st \<and>
        work_items st' = work_items (run_events ev used st) \<and>
        (\<forall>k<length used. \<exists>f \<in> futures st. \<not> future_done (run_events ev (take k used) st) f)"
    using u(1) b by (simp add: st' u(2))
  then have "\<exists>used. evs = used @ rest \<and>
        futures st' = futures (run_events ev used st) - futures st \<and>
        work_items st' = work_items (run_events ev used st) \<and>
        (\<forall>k<length used. \<exists>f \<in> futures st. \<not> future_done (run_events ev (take k used) st) f)"
    by (rule exI)
  with a show ?thesis by (rule conjI)
qed

theorem wait_for_futures_joins_snapshot_witness:
  "wf_state (persist_run 0 example_handler) \<and>
   (\<exists>st'. wait_for_futures evaluate_ok [Worker 0, Persist 0, Worker 1, Worker 2]
            (persist_run 0 example_handler) = Some (Inr (), st', [Worker 2]) \<and>
          future_done st' 0 \<and> future_done st' 1 \<and> 0 \<notin> futures st' \<and> 1 \<notin> futures st' \<and>
          futures st' = {2, 3} \<and> \<not> future_done st' 2 \<and> \<not> future_done st' 3)"
proof -
  let ?s = "persist_run 0 example_handler"
  let ?r = "wait_for_futures evaluate_ok [Worker 0, Persist 0, Worker 1, Worker 2] ?s"
  have w: "wf_state ?s" by (rule wf_persist_example)
  have c: "map_option (\<lambda>(r, st', rest). (r, rest, futures st', map fut_state (work_items st'))) ?r
        = Some (Inr (), [Worker 2], {2, 3},
                [FINISHED (Inr ()), FINISHED (Inr ()), PENDING, PENDING])"
    by code_simp
  then obtain st' where r: "?r = Some (Inr (), st', [Worker 2])"
    and f: "futures st' = {2, 3}"
    and m: "map fut_state (work_items st') =
              [FINISHED (Inr ()), FINISHED (Inr ()), PENDING, PENDING]"
    by (cases ?r) auto
  from m have len: "length (work_items st') = 4"
    using length_map [of fut_state "work_items st'"] by simp
  have nd: "\<not> future_done st' 2 \<and> \<not> future_done st' 3"
  proof -
    have "map fut_state (work_items st') ! 2 = PENDING" "map fut_state (work_items st') ! 3 = PENDING"
      by (simp_all add: m)
    with len show ?thesis by (simp add: future_done_def)
  qed
  from wait_for_futures_joins_snapshot [OF w r] have "\<forall>f \<in> futures ?s. future_done st' f \<and> f \<notin> futures st'" by blast
  then have "future_done st' 0 \<and> future_done st' 1 \<and> 0 \<notin> futures st' \<and> 1 \<notin> futures st'"
    unfolding persist_example_run by simp
  with w r f nd show ?thesis by blast
qed

end
